theory Spec2Isabelle
  imports Main "HOL-Library.Word"
begin

unbundle bit_operations_syntax

section \<open>OSM entities\<close>

text \<open>
  The command \<^verbatim>\<open>osmium cat\<close> (\<^verbatim>\<open>src/command_cat.cpp\<close>) copies buffers of OSM entities
  from readers to one writer. The entity classes belong to the OSM library the file
  includes (\<^verbatim>\<open>osmium/osm/object.hpp\<close>, \<^verbatim>\<open>osmium/osm/types.hpp\<close>); they are modelled
  here as far as the command touches them.

  Nodes, ways and relations are \<^verbatim>\<open>osmium::OSMObject\<close>s: they share the attributes id,
  visible flag, version, changeset id, timestamp, uid, user name and tags, and differ in
  their type and geometry. \<^verbatim>\<open>object_version_type\<close>, \<^verbatim>\<open>changeset_id_type\<close> and
  \<^verbatim>\<open>user_id_type\<close> are \<^verbatim>\<open>uint32_t\<close>; an \<^verbatim>\<open>osmium::Timestamp\<close> holds seconds since the
  epoch in a \<^verbatim>\<open>uint32_t\<close>, and the default-constructed \<^verbatim>\<open>osmium::Timestamp{}\<close> is the
  unset timestamp 0.
\<close>

datatype item_type = node | way | relation

datatype geometry =
    Location int int
  | NodeRefs "int list"
  | Members "(item_type \<times> int \<times> string) list"

record osm_object =
  item_kind :: item_type
  obj_id :: int
  visible :: bool
  version :: "32 word"
  changeset :: "32 word"
  timestamp :: "32 word"
  uid :: "32 word"
  user :: string
  tags :: "(string \<times> string) list"
  geom :: geometry

text \<open>
  A changeset is an \<^verbatim>\<open>osmium::Changeset\<close>. It is an OSM entity but not an
  \<^verbatim>\<open>osmium::OSMObject\<close>: it has no version, no changeset attribute and no timestamp of
  the object kind, but an id, the times it was opened and closed, the uid and user name of
  its author, a number of changes and tags.
\<close>

record osm_changeset =
  cs_id :: "32 word"
  cs_created_at :: "32 word"
  cs_closed_at :: "32 word"
  cs_uid :: "32 word"
  cs_user :: string
  cs_num_changes :: "32 word"
  cs_tags :: "(string \<times> string) list"

datatype entity = Object osm_object | ChangesetItem osm_changeset

text \<open>An \<^verbatim>\<open>osmium::memory::Buffer\<close> that a reader returns: the entities in file order.\<close>

type_synonym buffer = "entity list"

definition Timestamp_unset :: "32 word" where
  "Timestamp_unset = 0"

text \<open>The setters of \<^verbatim>\<open>osmium::OSMObject\<close> that \<^verbatim>\<open>CommandCat::copy\<close> calls.\<close>

definition set_version :: "32 word \<Rightarrow> osm_object \<Rightarrow> osm_object" where
  "set_version v ob = ob\<lparr>version := v\<rparr>"

definition set_changeset :: "32 word \<Rightarrow> osm_object \<Rightarrow> osm_object" where
  "set_changeset c ob = ob\<lparr>changeset := c\<rparr>"

definition set_timestamp :: "32 word \<Rightarrow> osm_object \<Rightarrow> osm_object" where
  "set_timestamp t ob = ob\<lparr>timestamp := t\<rparr>"

definition set_uid :: "32 word \<Rightarrow> osm_object \<Rightarrow> osm_object" where
  "set_uid u ob = ob\<lparr>uid := u\<rparr>"

definition clear_user :: "osm_object \<Rightarrow> osm_object" where
  "clear_user ob = ob\<lparr>user := []\<rparr>"

section \<open>The clean attribute flags\<close>

text \<open>
  Modelled from the spec: the enum \<^verbatim>\<open>clean_options\<close> and the member \<^verbatim>\<open>m_clean_attrs\<close> are
  declared in \<^verbatim>\<open>command_cat.hpp\<close>, which is not among the source files. The spec calls
  them a bitmask with exactly one flag per attribute name; the code ORs the flags into
  \<^verbatim>\<open>m_clean_attrs\<close> and tests them with \<^verbatim>\<open>&\<close>. They are taken as five distinct bits of
  an 8-bit mask.
\<close>

definition clean_version :: "8 word" where
  "clean_version = 0x01"

definition clean_changeset :: "8 word" where
  "clean_changeset = 0x02"

definition clean_timestamp :: "8 word" where
  "clean_timestamp = 0x04"

definition clean_uid :: "8 word" where
  "clean_uid = 0x08"

definition clean_user :: "8 word" where
  "clean_user = 0x10"

section \<open>Cleaning the objects of a buffer\<close>

text \<open>
  The five statements of lines 135 to 149, each as the function on one object that the
  statement is when its flag is set.
\<close>

definition clear_version_op :: "osm_object \<Rightarrow> osm_object" where
  "clear_version_op ob = set_version 0 ob"

definition clear_changeset_op :: "osm_object \<Rightarrow> osm_object" where
  "clear_changeset_op ob = set_changeset 0 ob"

definition clear_timestamp_op :: "osm_object \<Rightarrow> osm_object" where
  "clear_timestamp_op ob = set_timestamp Timestamp_unset ob"

definition clear_uid_op :: "osm_object \<Rightarrow> osm_object" where
  "clear_uid_op ob = set_uid 0 ob"

definition clear_user_op :: "osm_object \<Rightarrow> osm_object" where
  "clear_user_op ob = clear_user ob"

text \<open>
  The body of the \<^verbatim>\<open>for\<close> loop of \<^verbatim>\<open>CommandCat::copy\<close> on one object: five tests of
  \<^verbatim>\<open>m_clean_attrs & flag\<close> in the order of the source, each followed by its setter.
\<close>

definition clean_object :: "8 word \<Rightarrow> osm_object \<Rightarrow> osm_object" where
  "clean_object m ob =
     (let ob1 = (if m AND clean_version \<noteq> 0 then clear_version_op ob else ob);
          ob2 = (if m AND clean_changeset \<noteq> 0 then clear_changeset_op ob1 else ob1);
          ob3 = (if m AND clean_timestamp \<noteq> 0 then clear_timestamp_op ob2 else ob2);
          ob4 = (if m AND clean_uid \<noteq> 0 then clear_uid_op ob3 else ob3);
          ob5 = (if m AND clean_user \<noteq> 0 then clear_user_op ob4 else ob4)
      in ob5)"

text \<open>
  \<^verbatim>\<open>buffer.select<osmium::OSMObject>()\<close> walks the buffer and yields the items whose type
  is an \<^verbatim>\<open>osmium::OSMObject\<close> (nodes, ways and relations); a changeset item is not one and
  is passed over. The loop mutates the selected objects in place, so the buffer keeps its
  length and order.
\<close>

fun clean_entity :: "8 word \<Rightarrow> entity \<Rightarrow> entity" where
  "clean_entity m (Object ob) = Object (clean_object m ob)"
| "clean_entity m (ChangesetItem c) = ChangesetItem c"

text \<open>Lines 133 to 151: \<^verbatim>\<open>if (m_clean_attrs) { for (auto& object : ...) ... }\<close>.\<close>

definition clean_buffer :: "8 word \<Rightarrow> buffer \<Rightarrow> buffer" where
  "clean_buffer m buf = (if m \<noteq> 0 then map (clean_entity m) buf else buf)"

section \<open>Errors and the verbose output\<close>

text \<open>
  A C++ exception is a value. \<^verbatim>\<open>argument_error\<close> is the exception of
  \<^verbatim>\<open>exception.hpp\<close> that \<^verbatim>\<open>setup\<close> throws with its message; \<open>io_error\<close> stands for
  whatever a reader or a writer throws (a file that cannot be opened, a format violation,
  a full disk).
\<close>

datatype error = argument_error string | io_error string

text \<open>
  \<^verbatim>\<open>operator<<\<close> on an unsigned number writes it in decimal. \<^verbatim>\<open>m_vout\<close> is modelled
  as the list of what the statements stream to it, one entry per statement.
\<close>

fun show_nat :: "nat \<Rightarrow> string" where
  "show_nat n =
     (if n < 10 then [char_of (48 + n)]
      else show_nat (n div 10) @ [char_of (48 + n mod 10)])"

declare show_nat.simps [simp del]

section \<open>Setup: the values of the clean option\<close>

text \<open>
  Lines 76 to 90: the loop over the values of \<^verbatim>\<open>--clean\<close>. Each recognized name
  ORs its flag into \<^verbatim>\<open>m_clean_attrs\<close>; the first other value throws.
\<close>

fun clean_loop :: "string list \<Rightarrow> 8 word \<Rightarrow> error + 8 word" where
  "clean_loop [] m = Inr m"
| "clean_loop (c # cs) m =
     (if c = ''version'' then clean_loop cs (m OR clean_version)
      else if c = ''changeset'' then clean_loop cs (m OR clean_changeset)
      else if c = ''timestamp'' then clean_loop cs (m OR clean_timestamp)
      else if c = ''uid'' then clean_loop cs (m OR clean_uid)
      else if c = ''user'' then clean_loop cs (m OR clean_user)
      else Inl (argument_error
        (''Unknown attribute on -c/--clean option: '' @ [CHR 0x27] @ c @ [CHR 0x27])))"

text \<open>The five names the loop recognizes.\<close>

definition clean_names :: "string list" where
  "clean_names = [''version'', ''changeset'', ''timestamp'', ''uid'', ''user'']"

text \<open>An \<^verbatim>\<open>osmium::io::File\<close>: a file name and a format.\<close>

record osm_file =
  filename :: string
  format :: string

text \<open>The members of the command that \<^verbatim>\<open>setup\<close> fills and \<^verbatim>\<open>run\<close> reads.\<close>

record command_cat =
  m_input_files :: "osm_file list"
  m_output_file :: osm_file
  m_output_overwrite :: bool
  m_fsync :: bool
  m_osm_entity_bits :: "8 word"
  m_clean_attrs :: "8 word"

text \<open>
  A \<^verbatim>\<open>po::variables_map\<close>: the values given for each option name, none for an option
  that was not given (\<^verbatim>\<open>vm.count(name) = 0\<close>).
\<close>

type_synonym variables_map = "string \<rightharpoonup> string list"

text \<open>
  \<^verbatim>\<open>CommandCat::setup\<close>, under the name \<open>cat_setup\<close> since \<open>setup\<close> is a keyword
  of the theory language. Two parts of it are not in the source file and are parameters:
  \<open>parse\<close> is the command line parser of lines 41 to 67 (the Boost library, over the
  options declared there), and \<open>setup_base\<close> is the sequence of the five inherited steps
  of lines 69 to 73 (\<^verbatim>\<open>setup_common\<close>, \<^verbatim>\<open>setup_progress\<close>, \<^verbatim>\<open>setup_object_type_nwrc\<close>,
  \<^verbatim>\<open>setup_input_files\<close>, \<^verbatim>\<open>setup_output_file\<close>), which fill the other members. Either
  may throw. Neither the parameters nor \<open>cat_setup\<close> are given a reader or a writer.
\<close>

definition cat_setup ::
  "(string list \<Rightarrow> error + variables_map) \<Rightarrow>
   (variables_map \<Rightarrow> command_cat \<Rightarrow> error + command_cat) \<Rightarrow>
   string list \<Rightarrow> command_cat \<Rightarrow> error + (bool \<times> command_cat)" where
  "cat_setup parse setup_base arguments st =
     (case parse arguments of
        Inl e \<Rightarrow> Inl e
      | Inr vm \<Rightarrow>
          (case setup_base vm st of
             Inl e \<Rightarrow> Inl e
           | Inr st1 \<Rightarrow>
               (case vm ''clean'' of
                  None \<Rightarrow> Inr (True, st1)
                | Some cs \<Rightarrow>
                    (case clean_loop cs (m_clean_attrs st1) of
                       Inl e \<Rightarrow> Inl e
                     | Inr m \<Rightarrow> Inr (True, st1\<lparr>m_clean_attrs := m\<rparr>)))))"

section \<open>Readers, the writer and the copy loop\<close>

text \<open>
  The reader and the writer are the OSM library's. A reader that has been opened is
  modelled by what its calls will give: its header (or the exception \<^verbatim>\<open>header()\<close>
  throws), the size of its file, the results of its successive \<^verbatim>\<open>read()\<close> calls (a
  buffer, or an exception), after which \<^verbatim>\<open>read()\<close> returns the invalid buffer that ends
  the \<^verbatim>\<open>while\<close> loop, and the exception \<^verbatim>\<open>close()\<close> throws, if any.
\<close>

type_synonym header = "(string \<times> string) list"

record reader =
  r_header :: "error + header"
  r_file_size :: nat
  r_reads :: "(error + buffer) list"
  r_close :: "error option"

text \<open>
  The world the command runs in. \<open>open_reader\<close> constructs a reader from a file and the
  entity bits; \<open>open_writer\<close> is the writer's constructor (file, header, overwrite,
  fsync) and gives the exception it throws, if any; the writer's state is the list of
  buffers it has received, \<open>write_buffer\<close> gives the exception that \<^verbatim>\<open>writer(buffer)\<close>
  throws in that state, if any, and \<open>close_writer\<close> the number of bytes that
  \<^verbatim>\<open>writer.close()\<close> returns. \<open>setup_header\<close> and \<open>show_memory_used\<close> are inherited
  members of the command that are not in the source file: the first edits the output
  header, the second streams some lines to \<^verbatim>\<open>m_vout\<close>.
\<close>

record io_env =
  open_reader :: "osm_file \<Rightarrow> 8 word \<Rightarrow> error + reader"
  open_writer :: "osm_file \<Rightarrow> header \<Rightarrow> bool \<Rightarrow> bool \<Rightarrow> error option"
  write_buffer :: "buffer list \<Rightarrow> buffer \<Rightarrow> error option"
  close_writer :: "buffer list \<Rightarrow> error + nat"
  setup_header :: "header \<Rightarrow> header"
  show_memory_used :: "string list"

text \<open>
  \<^verbatim>\<open>CommandCat::copy\<close>: the \<^verbatim>\<open>while\<close> loop over the reads of one reader; \<open>w\<close> is the
  list of buffers the writer has received. The progress bar only draws on the terminal
  and is left out.
\<close>

fun copy :: "io_env \<Rightarrow> 8 word \<Rightarrow> (error + buffer) list \<Rightarrow> buffer list \<Rightarrow> error + buffer list" where
  "copy env m [] w = Inr w"
| "copy env m (Inl e # rs) w = Inl e"
| "copy env m (Inr buf # rs) w =
     (case write_buffer env w (clean_buffer m buf) of
        Some e \<Rightarrow> Inl e
      | None \<Rightarrow> copy env m rs (w @ [clean_buffer m buf]))"

section \<open>Run\<close>

definition newline :: char where
  "newline = CHR 0x0A"

definition copying_msg :: "osm_file \<Rightarrow> reader \<Rightarrow> string" where
  "copying_msg f rd =
     ''Copying input file '' @ [CHR 0x27] @ filename f @ [CHR 0x27] @ '' ('' @
     show_nat (r_file_size rd) @ '' bytes)'' @ [newline]"

definition wrote_msg :: "nat \<Rightarrow> string" where
  "wrote_msg n = ''Wrote '' @ show_nat n @ '' bytes.'' @ [newline]"

definition done_msg :: string where
  "done_msg = ''Done.'' @ [newline]"

text \<open>
  The single-file branch, lines 161 to 173. It gives the lines streamed to \<^verbatim>\<open>m_vout\<close>,
  the buffers the writer received and the file size \<^verbatim>\<open>writer.close()\<close> returned.
\<close>

definition run_single :: "io_env \<Rightarrow> command_cat \<Rightarrow> osm_file \<Rightarrow> error + (string list \<times> buffer list \<times> nat)" where
  "run_single env st f =
     (case open_reader env f (m_osm_entity_bits st) of
        Inl e \<Rightarrow> Inl e
      | Inr rd \<Rightarrow>
          (case r_header rd of
             Inl e \<Rightarrow> Inl e
           | Inr hdr \<Rightarrow>
               (case open_writer env (m_output_file st) (setup_header env hdr)
                       (m_output_overwrite st) (m_fsync st) of
                  Some e \<Rightarrow> Inl e
                | None \<Rightarrow>
                    (case copy env (m_clean_attrs st) (r_reads rd) [] of
                       Inl e \<Rightarrow> Inl e
                     | Inr w \<Rightarrow>
                         (case close_writer env w of
                            Inl e \<Rightarrow> Inl e
                          | Inr file_size \<Rightarrow>
                              (case r_close rd of
                                 Some e \<Rightarrow> Inl e
                               | None \<Rightarrow> Inr ([copying_msg f rd], w, file_size)))))))"

text \<open>
  The \<^verbatim>\<open>for\<close> loop of the multiple-files branch, lines 180 to 188: \<open>vout\<close> is what has
  been streamed to \<^verbatim>\<open>m_vout\<close>, \<open>w\<close> what the one writer has received.
\<close>

fun copy_files ::
  "io_env \<Rightarrow> command_cat \<Rightarrow> osm_file list \<Rightarrow> string list \<Rightarrow> buffer list \<Rightarrow> error + (string list \<times> buffer list)" where
  "copy_files env st [] vout w = Inr (vout, w)"
| "copy_files env st (f # fs) vout w =
     (case open_reader env f (m_osm_entity_bits st) of
        Inl e \<Rightarrow> Inl e
      | Inr rd \<Rightarrow>
          (case copy env (m_clean_attrs st) (r_reads rd) w of
             Inl e \<Rightarrow> Inl e
           | Inr w' \<Rightarrow>
               (case r_close rd of
                  Some e \<Rightarrow> Inl e
                | None \<Rightarrow> copy_files env st fs (vout @ [copying_msg f rd]) w')))"

text \<open>
  The multiple-files branch, lines 175 to 190; the header is the default-constructed
  \<^verbatim>\<open>osmium::io::Header\<close>, which has no entries.
\<close>

definition run_multi :: "io_env \<Rightarrow> command_cat \<Rightarrow> error + (string list \<times> buffer list \<times> nat)" where
  "run_multi env st =
     (case open_writer env (m_output_file st) (setup_header env [])
             (m_output_overwrite st) (m_fsync st) of
        Some e \<Rightarrow> Inl e
      | None \<Rightarrow>
          (case copy_files env st (m_input_files st) [] [] of
             Inl e \<Rightarrow> Inl e
           | Inr (vout, w) \<Rightarrow>
               (case close_writer env w of
                  Inl e \<Rightarrow> Inl e
                | Inr file_size \<Rightarrow> Inr (vout, w, file_size))))"

text \<open>
  What a run that returns leaves behind: its return value, the lines it streamed to
  \<^verbatim>\<open>m_vout\<close>, the buffers the writer received in order, and the file size.
\<close>

record run_result =
  ret :: bool
  vout :: "string list"
  sink :: "buffer list"
  written :: nat

text \<open>\<^verbatim>\<open>CommandCat::run\<close>. An exception of a reader or the writer leaves through \<open>Inl\<close>.\<close>

definition run :: "io_env \<Rightarrow> command_cat \<Rightarrow> error + run_result" where
  "run env st =
     (case (if length (m_input_files st) = 1
            then run_single env st (m_input_files st ! 0)
            else run_multi env st) of
        Inl e \<Rightarrow> Inl e
      | Inr (lines, w, file_size) \<Rightarrow>
          Inr \<lparr>ret = True,
               vout = lines @ (if file_size > 0 then [wrote_msg file_size] else []) @
                      show_memory_used env @ [done_msg],
               sink = w,
               written = file_size\<rparr>)"

section \<open>Notions the properties are stated with\<close>

text \<open>
  The flag set that a set of attribute names denotes, in the spec's words: each of the
  five names stands for its one flag, any other string for none.
\<close>

definition mask_of :: "string set \<Rightarrow> 8 word" where
  "mask_of S =
     (if ''version'' \<in> S then clean_version else 0) OR
     (if ''changeset'' \<in> S then clean_changeset else 0) OR
     (if ''timestamp'' \<in> S then clean_timestamp else 0) OR
     (if ''uid'' \<in> S then clean_uid else 0) OR
     (if ''user'' \<in> S then clean_user else 0)"

text \<open>The buffers a reader yields before its first exception.\<close>

fun buffers_of :: "(error + buffer) list \<Rightarrow> buffer list" where
  "buffers_of [] = []"
| "buffers_of (Inl e # rs) = []"
| "buffers_of (Inr buf # rs) = buf # buffers_of rs"

text \<open>
  What reading one input file gives: the results of the reads of its reader, or the one
  exception of a reader that cannot be opened. And the buffers the file yields: those
  read before the first exception.
\<close>

definition file_reads :: "io_env \<Rightarrow> 8 word \<Rightarrow> osm_file \<Rightarrow> (error + buffer) list" where
  "file_reads env bits f =
     (case open_reader env f bits of Inl e \<Rightarrow> [Inl e] | Inr rd \<Rightarrow> r_reads rd)"

definition file_buffers :: "io_env \<Rightarrow> 8 word \<Rightarrow> osm_file \<Rightarrow> buffer list" where
  "file_buffers env bits f = buffers_of (file_reads env bits f)"

text \<open>
  The five clearing operations by name, to speak of applying some of them in some
  order; \<open>active_ops\<close> lists those whose flag is set, in the order of the source.
\<close>

datatype clean_op = ClearVersion | ClearChangeset | ClearTimestamp | ClearUid | ClearUser

fun apply_op :: "clean_op \<Rightarrow> osm_object \<Rightarrow> osm_object" where
  "apply_op ClearVersion ob = clear_version_op ob"
| "apply_op ClearChangeset ob = clear_changeset_op ob"
| "apply_op ClearTimestamp ob = clear_timestamp_op ob"
| "apply_op ClearUid ob = clear_uid_op ob"
| "apply_op ClearUser ob = clear_user_op ob"

definition active_ops :: "8 word \<Rightarrow> clean_op list" where
  "active_ops m =
     (if m AND clean_version \<noteq> 0 then [ClearVersion] else []) @
     (if m AND clean_changeset \<noteq> 0 then [ClearChangeset] else []) @
     (if m AND clean_timestamp \<noteq> 0 then [ClearTimestamp] else []) @
     (if m AND clean_uid \<noteq> 0 then [ClearUid] else []) @
     (if m AND clean_user \<noteq> 0 then [ClearUser] else [])"

text \<open>The message of the exception for an unrecognized value \<open>c\<close> (line 88).\<close>

definition unknown_attribute :: "string \<Rightarrow> error" where
  "unknown_attribute c =
     argument_error (''Unknown attribute on -c/--clean option: '' @ [CHR 0x27] @ c @ [CHR 0x27])"

text \<open>The values of the clean option in a variables map, none when it was not given.\<close>

definition clean_values :: "variables_map \<Rightarrow> string list" where
  "clean_values vm = (case vm ''clean'' of None \<Rightarrow> [] | Some cs \<Rightarrow> cs)"

text \<open>
  A run meets no exception when every input file opens, gives its header when it is the
  only one, is read to its end and closes, and the writer opens, accepts every buffer and
  closes.
\<close>

definition no_exceptions :: "io_env \<Rightarrow> command_cat \<Rightarrow> bool" where
  "no_exceptions env st \<longleftrightarrow>
     (\<forall>f \<in> set (m_input_files st).
        \<exists>rd bs. open_reader env f (m_osm_entity_bits st) = Inr rd \<and>
          r_reads rd = map Inr bs \<and> r_close rd = None \<and>
          (length (m_input_files st) = 1 \<longrightarrow> (\<exists>hdr. r_header rd = Inr hdr))) \<and>
     (\<forall>hdr. open_writer env (m_output_file st) hdr (m_output_overwrite st) (m_fsync st) = None) \<and>
     (\<forall>w buf. write_buffer env w buf = None) \<and>
     (\<forall>w. \<exists>n. close_writer env w = Inr n)"

text \<open>Reading a decimal number back, to say what \<open>show_nat\<close> prints.\<close>

definition read_nat :: "string \<Rightarrow> nat" where
  "read_nat s = foldl (\<lambda>a c. 10 * a + (of_char c - 48)) 0 s"

subsection \<open>The command as its caller runs it\<close>

text \<open>
  All file I/O of the command goes through a reader or the writer, and these are
  constructed only in \<^verbatim>\<open>run\<close> (lines 161, 167, 177 and 182). \<open>run_opens\<close> lists the
  constructor calls of a run in order, up to the first exception: in the single-file
  branch the reader and then, once its header is there, the writer; in the other branch
  the writer and then, while nothing throws, one reader for each input file.
\<close>

datatype io_event = Open_reader osm_file | Open_writer osm_file

fun copy_files_opens :: "io_env \<Rightarrow> command_cat \<Rightarrow> osm_file list \<Rightarrow> buffer list \<Rightarrow> io_event list" where
  "copy_files_opens env st [] w = []"
| "copy_files_opens env st (f # fs) w =
     Open_reader f #
     (case open_reader env f (m_osm_entity_bits st) of
        Inl e \<Rightarrow> []
      | Inr rd \<Rightarrow>
          (case copy env (m_clean_attrs st) (r_reads rd) w of
             Inl e \<Rightarrow> []
           | Inr w' \<Rightarrow>
               (case r_close rd of
                  Some e \<Rightarrow> []
                | None \<Rightarrow> copy_files_opens env st fs w')))"

definition run_opens :: "io_env \<Rightarrow> command_cat \<Rightarrow> io_event list" where
  "run_opens env st =
     (if length (m_input_files st) = 1
      then Open_reader (m_input_files st ! 0) #
        (case open_reader env (m_input_files st ! 0) (m_osm_entity_bits st) of
           Inl e \<Rightarrow> []
         | Inr rd \<Rightarrow>
             (case r_header rd of
                Inl e \<Rightarrow> []
              | Inr hdr \<Rightarrow> [Open_writer (m_output_file st)]))
      else Open_writer (m_output_file st) #
        (case open_writer env (m_output_file st) (setup_header env [])
                (m_output_overwrite st) (m_fsync st) of
           Some e \<Rightarrow> []
         | None \<Rightarrow> copy_files_opens env st (m_input_files st) []))"

text \<open>
  Modelled from the spec: the caller of \<^verbatim>\<open>setup\<close> and \<^verbatim>\<open>run\<close> is not among the source
  files. In the spec the surrounding layer runs the setup step and then the execute step;
  a configuration that setup rejects is surfaced to the caller and execution never
  starts, and the clean attribute set is built from the configuration before any I/O
  begins. So the command is \<^verbatim>\<open>setup\<close> and, only when it returned true, \<^verbatim>\<open>run\<close> on the
  state it left. The outcome records what \<^verbatim>\<open>setup\<close> gave, what \<^verbatim>\<open>run\<close> gave when it
  was started, and the readers and the writer that were constructed.
\<close>

record command_outcome =
  setup_outcome :: "error + bool"
  run_outcome :: "(error + run_result) option"
  opened :: "io_event list"

definition cat_command ::
  "(string list \<Rightarrow> error + variables_map) \<Rightarrow>
   (variables_map \<Rightarrow> command_cat \<Rightarrow> error + command_cat) \<Rightarrow>
   io_env \<Rightarrow> string list \<Rightarrow> command_cat \<Rightarrow> command_outcome" where
  "cat_command parse setup_base env arguments st =
     (case cat_setup parse setup_base arguments st of
        Inl e \<Rightarrow> \<lparr>setup_outcome = Inl e, run_outcome = None, opened = []\<rparr>
      | Inr (ok, st') \<Rightarrow>
          if ok
          then \<lparr>setup_outcome = Inr True, run_outcome = Some (run env st'),
                opened = run_opens env st'\<rparr>
          else \<lparr>setup_outcome = Inr False, run_outcome = None, opened = []\<rparr>)"

subsection \<open>Concrete inputs\<close>

definition example_node :: osm_object where
  "example_node =
     \<lparr>item_kind = node, obj_id = 17, visible = True, version = 3, changeset = 1001,
      timestamp = 1600000000, uid = 42, user = ''alice'',
      tags = [(''amenity'', ''cafe'')], geom = Location 10 20\<rparr>"

definition example_changeset :: osm_changeset where
  "example_changeset =
     \<lparr>cs_id = 1001, cs_created_at = 1600000000, cs_closed_at = 1600000600, cs_uid = 42,
      cs_user = ''alice'', cs_num_changes = 5, cs_tags = [(''comment'', ''cafes'')]\<rparr>"

definition example_reader :: "buffer list \<Rightarrow> reader" where
  "example_reader bufs =
     \<lparr>r_header = Inr [(''generator'', ''test'')], r_file_size = 120,
      r_reads = map Inr bufs, r_close = None\<rparr>"

text \<open>
  A world with two readable files, \<^verbatim>\<open>a.osm\<close> with one node and \<^verbatim>\<open>b.osm\<close> with one
  changeset and an empty buffer, and a writer that accepts everything and counts 100
  bytes for each entity.
\<close>

definition example_env :: io_env where
  "example_env =
     \<lparr>open_reader = (\<lambda>f bits.
        if filename f = ''a.osm'' then Inr (example_reader [[Object example_node]])
        else if filename f = ''b.osm''
          then Inr (example_reader [[ChangesetItem example_changeset], []])
        else Inl (io_error ''cannot open file'')),
      open_writer = (\<lambda>f hdr overwrite fsync. None),
      write_buffer = (\<lambda>w buf. None),
      close_writer = (\<lambda>w. Inr (100 * length (concat w))),
      setup_header = (\<lambda>hdr. (''generator'', ''osmium'') # hdr),
      show_memory_used = []\<rparr>"

definition example_file :: "string \<Rightarrow> osm_file" where
  "example_file name = \<lparr>filename = name, format = ''osm''\<rparr>"

definition example_command :: "osm_file list \<Rightarrow> 8 word \<Rightarrow> command_cat" where
  "example_command inputs m =
     \<lparr>m_input_files = inputs, m_output_file = example_file ''out.osm'',
      m_output_overwrite = False, m_fsync = False, m_osm_entity_bits = 0x0f,
      m_clean_attrs = m\<rparr>"

text \<open>
  A parser for the concrete inputs: every argument is a value of the clean option. And
  inherited setup steps that change nothing.
\<close>

definition example_parse :: "string list \<Rightarrow> error + variables_map" where
  "example_parse arguments =
     Inr (if arguments = [] then Map.empty else [''clean'' \<mapsto> arguments])"

definition example_setup_base :: "variables_map \<Rightarrow> command_cat \<Rightarrow> error + command_cat" where
  "example_setup_base vm st = Inr st"

section \<open>Properties\<close>

subsection \<open>Cleaning and the copy loop\<close>

lemma clean_object_fields:
  "clean_object m ob = ob\<lparr>
     version := (if m AND clean_version \<noteq> 0 then 0 else version ob),
     changeset := (if m AND clean_changeset \<noteq> 0 then 0 else changeset ob),
     timestamp := (if m AND clean_timestamp \<noteq> 0 then Timestamp_unset else timestamp ob),
     uid := (if m AND clean_uid \<noteq> 0 then 0 else uid ob),
     user := (if m AND clean_user \<noteq> 0 then [] else user ob)\<rparr>"
  by (simp add: clean_object_def clear_version_op_def clear_changeset_op_def
      clear_timestamp_op_def clear_uid_op_def clear_user_op_def set_version_def
      set_changeset_def set_timestamp_def set_uid_def clear_user_def)



lemma clean_object_zero: "clean_object 0 ob = ob"
  by (simp add: clean_object_fields)

lemma clean_buffer_map: "clean_buffer m buf = map (clean_entity m) buf"
proof (cases "m = 0")
  case True
  have "clean_entity 0 e = e" for e
    by (cases e) (simp_all add: clean_object_zero)
  then have "map (clean_entity 0) buf = buf"
    by (simp add: map_idI)
  with True show ?thesis by (simp add: clean_buffer_def)
next
  case False
  then show ?thesis by (simp add: clean_buffer_def)
qed

lemma copy_Inr:
  "copy env m rs w = Inr out \<Longrightarrow>
   map Inr (buffers_of rs) = rs \<and> out = w @ map (clean_buffer m) (buffers_of rs)"
proof (induction env m rs w rule: copy.induct)
  case (1 env m w)
  then show ?case by simp
next
  case (2 env m e rs w)
  then show ?case by simp
next
  case (3 env m buf rs w)
  then show ?case by (simp split: option.splits)
qed



text \<open>
  Claim C2, as amended. With a non-empty flag set the loop applies the active clears to
  every OSM object of the buffer, whatever its type; a changeset is not selected by
  \<^verbatim>\<open>select<osmium::OSMObject>\<close> and stays as it is.
\<close>

theorem clean_selects_objects_only:
  assumes "m \<noteq> 0" and "i < length buf"
  shows "(\<forall>ob. buf ! i = Object ob \<longrightarrow>
           clean_buffer m buf ! i = Object (ob\<lparr>
             version := (if m AND clean_version \<noteq> 0 then 0 else version ob),
             changeset := (if m AND clean_changeset \<noteq> 0 then 0 else changeset ob),
             timestamp := (if m AND clean_timestamp \<noteq> 0 then Timestamp_unset else timestamp ob),
             uid := (if m AND clean_uid \<noteq> 0 then 0 else uid ob),
             user := (if m AND clean_user \<noteq> 0 then [] else user ob)\<rparr>)) \<and>
         (\<forall>c. buf ! i = ChangesetItem c \<longrightarrow> clean_buffer m buf ! i = ChangesetItem c)"
  using assms by (simp add: clean_buffer_def clean_object_fields)

theorem clean_selects_objects_only_witness:
  "clean_buffer clean_version [Object example_node, ChangesetItem example_changeset] ! 0 =
     Object (example_node\<lparr>version := 0\<rparr>) \<and>
   clean_buffer clean_version [Object example_node, ChangesetItem example_changeset] ! 1 =
     ChangesetItem example_changeset"
proof -
  have nz: "clean_version \<noteq> 0" by (simp add: clean_version_def)
  have f: "clean_version AND clean_version \<noteq> 0" "\<not> clean_version AND clean_changeset \<noteq> 0"
    "\<not> clean_version AND clean_timestamp \<noteq> 0" "\<not> clean_version AND clean_uid \<noteq> 0"
    "\<not> clean_version AND clean_user \<noteq> 0"
    by (simp_all add: clean_version_def clean_changeset_def clean_timestamp_def clean_uid_def
        clean_user_def)
  show ?thesis
    using clean_selects_objects_only [OF nz, of 0 "[Object example_node, ChangesetItem example_changeset]"]
      clean_selects_objects_only [OF nz, of 1 "[Object example_node, ChangesetItem example_changeset]"]
      f
    by simp
qed

text \<open>
  Claim C2 as stated fails: with the flags for uid and user set, a buffer that holds a
  changeset of user alice, uid 42, reaches the writer unchanged.
\<close>

theorem changeset_attributes_not_reset:
  "clean_uid OR clean_user \<noteq> 0 \<and>
   (clean_uid OR clean_user) AND clean_uid \<noteq> 0 \<and>
   (clean_uid OR clean_user) AND clean_user \<noteq> 0 \<and>
   copy example_env (clean_uid OR clean_user) [Inr [ChangesetItem example_changeset]] [] =
     Inr [[ChangesetItem example_changeset]] \<and>
   cs_uid example_changeset = 42 \<and> cs_user example_changeset = ''alice''"
  by (simp add: example_env_def clean_buffer_def clean_uid_def clean_user_def
      example_changeset_def)

lemma clean_buffer_zero: "clean_buffer 0 = (\<lambda>buf. buf)"
  by (rule ext) (simp add: clean_buffer_def)

text \<open>
  Claim C3. The empty clean attribute set is the flag set 0; with it every buffer is
  left as it is, and the writer receives exactly the buffers the reader gave, in the
  order it gave them.
\<close>

theorem copy_without_clean_is_identity:
  "mask_of {} = 0 \<and> clean_buffer 0 buf = buf \<and>
   (copy env 0 rs [] = Inr out \<longrightarrow> map Inr out = rs)"
proof -
  have "map Inr out = rs" if "copy env 0 rs [] = Inr out"
    using copy_Inr [OF that] by (simp add: clean_buffer_zero)
  then show ?thesis
    by (simp add: clean_buffer_def mask_of_def)
qed

theorem copy_without_clean_is_identity_witness:
  "clean_buffer 0 [Object example_node] = [Object example_node] \<and>
   copy example_env 0 [Inr [Object example_node], Inr [ChangesetItem example_changeset]] [] =
     Inr [[Object example_node], [ChangesetItem example_changeset]]"
  using copy_without_clean_is_identity [of "[Object example_node]" example_env
      "[Inr [Object example_node], Inr [ChangesetItem example_changeset]]"
      "[[Object example_node], [ChangesetItem example_changeset]]"]
  by (simp add: example_env_def clean_buffer_def)

text \<open>
  Claim C4. Cleaning is idempotent: cleaning an object (or a buffer) twice with the same
  flag set gives what cleaning it once gives.
\<close>

theorem clean_idempotent:
  "clean_object m (clean_object m ob) = clean_object m ob \<and>
   clean_buffer m (clean_buffer m buf) = clean_buffer m buf"
proof -
  have ob: "clean_object m (clean_object m x) = clean_object m x" for x
    by (simp add: clean_object_fields)
  have "clean_entity m (clean_entity m e) = clean_entity m e" for e
    by (cases e) (simp_all add: ob)
  then show ?thesis
    by (simp add: ob clean_buffer_map)
qed


lemma fold_apply_op_fields:
  "fold apply_op ops ob = ob\<lparr>
     version := (if ClearVersion \<in> set ops then 0 else version ob),
     changeset := (if ClearChangeset \<in> set ops then 0 else changeset ob),
     timestamp := (if ClearTimestamp \<in> set ops then Timestamp_unset else timestamp ob),
     uid := (if ClearUid \<in> set ops then 0 else uid ob),
     user := (if ClearUser \<in> set ops then [] else user ob)\<rparr>"
proof (induction ops arbitrary: ob)
  case Nil
  show ?case by simp
next
  case (Cons a ops)
  show ?case
    by (cases a)
      (simp_all add: Cons.IH clear_version_op_def clear_changeset_op_def
        clear_timestamp_op_def clear_uid_op_def clear_user_op_def set_version_def
        set_changeset_def set_timestamp_def set_uid_def clear_user_def)
qed

lemma set_active_ops:
  "ClearVersion \<in> set (active_ops m) = (m AND clean_version \<noteq> 0)"
  "ClearChangeset \<in> set (active_ops m) = (m AND clean_changeset \<noteq> 0)"
  "ClearTimestamp \<in> set (active_ops m) = (m AND clean_timestamp \<noteq> 0)"
  "ClearUid \<in> set (active_ops m) = (m AND clean_uid \<noteq> 0)"
  "ClearUser \<in> set (active_ops m) = (m AND clean_user \<noteq> 0)"
  by (simp_all add: active_ops_def)

text \<open>
  Claim C5. The five clearing operations commute pairwise, and applying any of them in
  any order, with or without repetition, gives a result that depends only on which
  operations were applied; applied in any order, the operations whose flags are set give
  what the loop body of the source gives.
\<close>

theorem clean_ops_commute:
  "apply_op a (apply_op b ob) = apply_op b (apply_op a ob) \<and>
   (set ops1 = set ops2 \<longrightarrow> fold apply_op ops1 ob = fold apply_op ops2 ob) \<and>
   (set ops = set (active_ops m) \<longrightarrow> fold apply_op ops ob = clean_object m ob)"
proof -
  have "apply_op a (apply_op b ob) = fold apply_op [b, a] ob"
    and "apply_op b (apply_op a ob) = fold apply_op [a, b] ob"
    by simp_all
  then have comm: "apply_op a (apply_op b ob) = apply_op b (apply_op a ob)"
    by (simp only: fold_apply_op_fields) auto
  have perm: "fold apply_op ops1 ob = fold apply_op ops2 ob" if "set ops1 = set ops2"
    using that by (simp only: fold_apply_op_fields)
  have code: "fold apply_op ops ob = clean_object m ob" if "set ops = set (active_ops m)"
    using that by (simp only: fold_apply_op_fields clean_object_fields set_active_ops)
  from comm perm code show ?thesis by blast
qed

theorem clean_ops_commute_witness:
  "apply_op ClearUser (apply_op ClearUid example_node) =
     apply_op ClearUid (apply_op ClearUser example_node) \<and>
   fold apply_op [ClearUser, ClearVersion, ClearUser] example_node =
     fold apply_op [ClearVersion, ClearUser] example_node \<and>
   fold apply_op [ClearUser, ClearUid] example_node = clean_object 24 example_node \<and>
   clean_object 24 example_node = example_node\<lparr>uid := 0, user := []\<rparr>"
proof -
  have ops: "active_ops 24 = [ClearUid, ClearUser]"
    by (simp add: active_ops_def clean_version_def clean_changeset_def clean_timestamp_def
        clean_uid_def clean_user_def)
  have "clean_object 24 example_node = example_node\<lparr>uid := 0, user := []\<rparr>"
    by (simp add: clean_object_fields clean_version_def clean_changeset_def
        clean_timestamp_def clean_uid_def clean_user_def)
  then show ?thesis
    using clean_ops_commute [of ClearUser ClearUid example_node
        "[ClearUser, ClearVersion, ClearUser]" "[ClearVersion, ClearUser]"
        "[ClearUser, ClearUid]" 24] ops
    by auto
qed


subsection \<open>The values of the clean option\<close>

lemma mask_of_insert:
  "mask_of (insert ''version'' S) = clean_version OR mask_of S"
  "mask_of (insert ''changeset'' S) = clean_changeset OR mask_of S"
  "mask_of (insert ''timestamp'' S) = clean_timestamp OR mask_of S"
  "mask_of (insert ''uid'' S) = clean_uid OR mask_of S"
  "mask_of (insert ''user'' S) = clean_user OR mask_of S"
  by (simp_all add: mask_of_def ac_simps)

lemma clean_loop_find:
  "clean_loop cs m =
     (case find (\<lambda>c. c \<notin> set clean_names) cs of
        Some c \<Rightarrow> Inl (unknown_attribute c)
      | None \<Rightarrow> Inr (m OR mask_of (set cs)))"
proof (induction cs arbitrary: m)
  case Nil
  show ?case by (simp add: mask_of_def)
next
  case (Cons c cs)
  consider "c = ''version''" | "c = ''changeset''" | "c = ''timestamp''"
    | "c = ''uid''" | "c = ''user''" | "c \<notin> set clean_names"
    by (auto simp: clean_names_def)
  then show ?case
  proof cases
    case 6
    then show ?thesis
      by (simp add: clean_names_def unknown_attribute_def)
  qed (simp_all add: Cons.IH mask_of_insert ac_simps clean_names_def split: option.split)
qed

lemma find_unknown_None: "find (\<lambda>c. c \<notin> set clean_names) cs = None \<longleftrightarrow> set cs \<subseteq> set clean_names"
  by (auto simp: find_None_iff)

lemma cat_setup_steps:
  assumes "parse arguments = Inr vm" and "setup_base vm st = Inr st1"
  shows "cat_setup parse setup_base arguments st =
     (case clean_loop (clean_values vm) (m_clean_attrs st1) of
        Inl e \<Rightarrow> Inl e
      | Inr m \<Rightarrow> Inr (True, st1\<lparr>m_clean_attrs := m\<rparr>))"
  using assms by (simp add: cat_setup_def clean_values_def split: option.splits)

text \<open>
  Claim C10. The values of the clean option count as a set: two command lines whose
  clean values are recognized and are the same set of names, in any order and with any
  repetition, take the loop from any flag set to the same result, and \<^verbatim>\<open>setup\<close> leaves the
  same \<^verbatim>\<open>m_clean_attrs\<close>, hence the same cleaning and the same copy loop.
\<close>

theorem clean_values_form_a_set:
  assumes p: "parse args1 = Inr vm1" "parse args2 = Inr vm2"
    and b: "setup_base vm1 st = Inr st1" "setup_base vm2 st = Inr st2"
    and same_start: "m_clean_attrs st1 = m_clean_attrs st2"
    and same_set: "set (clean_values vm1) = set (clean_values vm2)"
    and known: "set (clean_values vm1) \<subseteq> set clean_names"
  shows "clean_loop (clean_values vm1) m = clean_loop (clean_values vm2) m \<and>
    (\<exists>s1 s2. cat_setup parse setup_base args1 st = Inr (True, s1) \<and>
       cat_setup parse setup_base args2 st = Inr (True, s2) \<and>
       m_clean_attrs s1 = m_clean_attrs s2 \<and>
       clean_buffer (m_clean_attrs s1) = clean_buffer (m_clean_attrs s2) \<and>
       copy env (m_clean_attrs s1) = copy env (m_clean_attrs s2))"
proof -
  let ?P = "\<lambda>c. c \<notin> set clean_names"
  from known have n1: "find ?P (clean_values vm1) = None"
    by (simp add: find_unknown_None)
  from known same_set have n2: "find ?P (clean_values vm2) = None"
    by (simp add: find_unknown_None)
  have loop: "clean_loop (clean_values vm1) k = clean_loop (clean_values vm2) k" for k
    by (simp add: clean_loop_find n1 n2 same_set)
  have s1: "cat_setup parse setup_base args1 st =
      Inr (True, st1\<lparr>m_clean_attrs := m_clean_attrs st1 OR mask_of (set (clean_values vm1))\<rparr>)"
    by (simp add: cat_setup_steps [where parse = parse and setup_base = setup_base, OF p(1) b(1)]
        clean_loop_find n1)
  have s2: "cat_setup parse setup_base args2 st =
      Inr (True, st2\<lparr>m_clean_attrs := m_clean_attrs st1 OR mask_of (set (clean_values vm1))\<rparr>)"
    by (simp add: cat_setup_steps [where parse = parse and setup_base = setup_base, OF p(2) b(2)]
        clean_loop_find n2 same_set same_start)
  show ?thesis
    using loop by (simp add: s1 s2)
qed

theorem clean_values_form_a_set_witness:
  "cat_setup example_parse example_setup_base [''user'', ''uid'', ''user''] (example_command [] 0) =
     Inr (True, example_command [] 24) \<and>
   cat_setup example_parse example_setup_base [''uid'', ''user''] (example_command [] 0) =
     Inr (True, example_command [] 24) \<and>
   clean_loop [''user'', ''uid'', ''user''] 0 = clean_loop [''uid'', ''user''] 0"
proof -
  let ?st = "example_command [] 0"
  have v: "clean_values [''clean'' \<mapsto> cs] = cs" for cs
    by (simp add: clean_values_def)
  have 1: "cat_setup example_parse example_setup_base [''user'', ''uid'', ''user''] ?st =
      Inr (True, example_command [] 24)"
    by (simp add: cat_setup_def example_parse_def example_setup_base_def example_command_def
        clean_uid_def clean_user_def)
  have 2: "cat_setup example_parse example_setup_base [''uid'', ''user''] ?st =
      Inr (True, example_command [] 24)"
    by (simp add: cat_setup_def example_parse_def example_setup_base_def example_command_def
        clean_uid_def clean_user_def)
  have "set [''user'', ''uid'', ''user''] = set [''uid'', ''user'']"
    by auto
  moreover have "set [''user'', ''uid'', ''user''] \<subseteq> set clean_names"
    by (simp add: clean_names_def)
  ultimately have "clean_loop [''user'', ''uid'', ''user''] 0 = clean_loop [''uid'', ''user''] 0"
    using clean_values_form_a_set [of example_parse "[''user'', ''uid'', ''user'']"
        "[''clean'' \<mapsto> [''user'', ''uid'', ''user'']]" "[''uid'', ''user'']"
        "[''clean'' \<mapsto> [''uid'', ''user'']]" example_setup_base ?st ?st ?st 0 example_env]
    by (simp add: example_parse_def example_setup_base_def v)
  with 1 2 show ?thesis by simp
qed


subsection \<open>The branches of a run\<close>

lemma copy_files_Inr:
  "copy_files env st fs vo w = Inr (vo', w') \<Longrightarrow>
   w' = w @ map (clean_buffer (m_clean_attrs st))
              (concat (map (file_buffers env (m_osm_entity_bits st)) fs)) \<and>
   (\<forall>f \<in> set fs. file_reads env (m_osm_entity_bits st) f =
      map Inr (file_buffers env (m_osm_entity_bits st) f)) \<and>
   (\<exists>rds. map (\<lambda>f. open_reader env f (m_osm_entity_bits st)) fs = map Inr rds \<and>
      vo' = vo @ map2 copying_msg fs rds)"
proof (induction fs arbitrary: vo w)
  case Nil
  then show ?case by simp
next
  case (Cons f fs)
  from Cons.prems obtain rd w1 where
    rd: "open_reader env f (m_osm_entity_bits st) = Inr rd"
    and c: "copy env (m_clean_attrs st) (r_reads rd) w = Inr w1"
    and rest: "copy_files env st fs (vo @ [copying_msg f rd]) w1 = Inr (vo', w')"
    by (auto split: sum.splits option.splits)
  from copy_Inr [OF c] have w1: "w1 = w @ map (clean_buffer (m_clean_attrs st)) (buffers_of (r_reads rd))"
    and ok: "map Inr (buffers_of (r_reads rd)) = r_reads rd"
    by simp_all
  from Cons.IH [OF rest] have oks: "\<forall>f \<in> set fs. file_reads env (m_osm_entity_bits st) f =
      map Inr (file_buffers env (m_osm_entity_bits st) f)"
    by blast
  from Cons.IH [OF rest] obtain rds where
    w': "w' = w1 @ map (clean_buffer (m_clean_attrs st))
              (concat (map (file_buffers env (m_osm_entity_bits st)) fs))"
    and rds: "map (\<lambda>f. open_reader env f (m_osm_entity_bits st)) fs = map Inr rds"
    and v: "vo' = (vo @ [copying_msg f rd]) @ map2 copying_msg fs rds"
    by blast
  have "map (\<lambda>f. open_reader env f (m_osm_entity_bits st)) (f # fs) = map Inr (rd # rds)"
    using rd rds by simp
  moreover have "vo' = vo @ map2 copying_msg (f # fs) (rd # rds)"
    using v by simp
  moreover have "w' = w @ map (clean_buffer (m_clean_attrs st))
              (concat (map (file_buffers env (m_osm_entity_bits st)) (f # fs)))"
    using w' w1 rd by (simp add: file_buffers_def file_reads_def)
  moreover have "\<forall>g \<in> set (f # fs). file_reads env (m_osm_entity_bits st) g =
      map Inr (file_buffers env (m_osm_entity_bits st) g)"
    using oks ok rd by (simp add: file_buffers_def file_reads_def)
  ultimately show ?case by blast
qed

lemma run_single_Inr:
  "run_single env st f = Inr (ls, w, n) \<Longrightarrow>
   w = map (clean_buffer (m_clean_attrs st)) (file_buffers env (m_osm_entity_bits st) f) \<and>
   close_writer env w = Inr n \<and>
   file_reads env (m_osm_entity_bits st) f = map Inr (file_buffers env (m_osm_entity_bits st) f) \<and>
   (\<exists>rd. open_reader env f (m_osm_entity_bits st) = Inr rd \<and> ls = [copying_msg f rd])"
proof -
  assume a: "run_single env st f = Inr (ls, w, n)"
  then obtain rd where
    rd: "open_reader env f (m_osm_entity_bits st) = Inr rd"
    and c: "copy env (m_clean_attrs st) (r_reads rd) [] = Inr w"
    and n: "close_writer env w = Inr n"
    and ls: "ls = [copying_msg f rd]"
    by (auto simp: run_single_def split: sum.splits option.splits)
  from copy_Inr [OF c] rd have "w = map (clean_buffer (m_clean_attrs st)) (file_buffers env (m_osm_entity_bits st) f)"
    and "file_reads env (m_osm_entity_bits st) f = map Inr (file_buffers env (m_osm_entity_bits st) f)"
    by (simp_all add: file_buffers_def file_reads_def)
  with n rd ls show ?thesis by blast
qed

lemma run_multi_Inr:
  "run_multi env st = Inr (ls, w, n) \<Longrightarrow>
   w = map (clean_buffer (m_clean_attrs st))
         (concat (map (file_buffers env (m_osm_entity_bits st)) (m_input_files st))) \<and>
   close_writer env w = Inr n \<and>
   (\<forall>f \<in> set (m_input_files st). file_reads env (m_osm_entity_bits st) f =
      map Inr (file_buffers env (m_osm_entity_bits st) f)) \<and>
   (\<exists>rds. map (\<lambda>f. open_reader env f (m_osm_entity_bits st)) (m_input_files st) = map Inr rds \<and>
      ls = map2 copying_msg (m_input_files st) rds)"
proof -
  assume a: "run_multi env st = Inr (ls, w, n)"
  then have c: "copy_files env st (m_input_files st) [] [] = Inr (ls, w)"
    and n: "close_writer env w = Inr n"
    by (auto simp: run_multi_def split: sum.splits option.splits)
  from copy_files_Inr [OF c] n show ?thesis by simp
qed

lemma run_Inr:
  assumes "run env st = Inr r"
  shows "ret r = True"
    and "sink r = map (clean_buffer (m_clean_attrs st))
         (concat (map (file_buffers env (m_osm_entity_bits st)) (m_input_files st)))"
    and "close_writer env (sink r) = Inr (written r)"
    and "\<forall>f \<in> set (m_input_files st). file_reads env (m_osm_entity_bits st) f =
          map Inr (file_buffers env (m_osm_entity_bits st) f)"
    and "\<exists>rds. map (\<lambda>f. open_reader env f (m_osm_entity_bits st)) (m_input_files st) = map Inr rds \<and>
          vout r = map2 copying_msg (m_input_files st) rds @
            (if 0 < written r then [wrote_msg (written r)] else []) @
            show_memory_used env @ [done_msg]"
proof -
  let ?fs = "m_input_files st"
  let ?body = "if length ?fs = 1 then run_single env st (?fs ! 0) else run_multi env st"
  from assms obtain ls w n where
    body: "?body = Inr (ls, w, n)"
    and r: "r = \<lparr>ret = True,
               vout = ls @ (if n > 0 then [wrote_msg n] else []) @ show_memory_used env @ [done_msg],
               sink = w, written = n\<rparr>"
    by (auto simp: run_def split: sum.splits)
  have facts: "w = map (clean_buffer (m_clean_attrs st))
         (concat (map (file_buffers env (m_osm_entity_bits st)) ?fs)) \<and>
       close_writer env w = Inr n \<and>
       (\<forall>f \<in> set ?fs. file_reads env (m_osm_entity_bits st) f =
          map Inr (file_buffers env (m_osm_entity_bits st) f)) \<and>
       (\<exists>rds. map (\<lambda>f. open_reader env f (m_osm_entity_bits st)) ?fs = map Inr rds \<and>
          ls = map2 copying_msg ?fs rds)"
  proof (cases "length ?fs = 1")
    case True
    then obtain f where fs: "?fs = [f]"
      by (cases ?fs) simp_all
    with body have "run_single env st f = Inr (ls, w, n)" by simp
    from run_single_Inr [OF this] obtain rd where
      "w = map (clean_buffer (m_clean_attrs st)) (file_buffers env (m_osm_entity_bits st) f)"
      "close_writer env w = Inr n"
      "file_reads env (m_osm_entity_bits st) f = map Inr (file_buffers env (m_osm_entity_bits st) f)"
      "open_reader env f (m_osm_entity_bits st) = Inr rd" "ls = [copying_msg f rd]"
      by blast
    then have "w = map (clean_buffer (m_clean_attrs st))
         (concat (map (file_buffers env (m_osm_entity_bits st)) [f]))"
      and "close_writer env w = Inr n"
      and "\<forall>g \<in> set [f]. file_reads env (m_osm_entity_bits st) g =
          map Inr (file_buffers env (m_osm_entity_bits st) g)"
      and "map (\<lambda>f. open_reader env f (m_osm_entity_bits st)) [f] = map Inr [rd] \<and>
          ls = map2 copying_msg [f] [rd]"
      by simp_all
    then show ?thesis unfolding fs by blast
  next
    case False
    with body have "run_multi env st = Inr (ls, w, n)" by simp
    from run_multi_Inr [OF this] show ?thesis .
  qed
  from r show "ret r = True" by simp
  from r facts show "sink r = map (clean_buffer (m_clean_attrs st))
         (concat (map (file_buffers env (m_osm_entity_bits st)) (m_input_files st)))"
    by simp
  from facts have "close_writer env w = Inr n" by blast
  with r show "close_writer env (sink r) = Inr (written r)" by simp
  from facts show "\<forall>f \<in> set (m_input_files st). file_reads env (m_osm_entity_bits st) f =
          map Inr (file_buffers env (m_osm_entity_bits st) f)" by blast
  from facts obtain rds where
    "map (\<lambda>f. open_reader env f (m_osm_entity_bits st)) ?fs = map Inr rds"
    "ls = map2 copying_msg ?fs rds"
    by blast
  with r show "\<exists>rds. map (\<lambda>f. open_reader env f (m_osm_entity_bits st)) (m_input_files st) = map Inr rds \<and>
          vout r = map2 copying_msg (m_input_files st) rds @
            (if 0 < written r then [wrote_msg (written r)] else []) @
            show_memory_used env @ [done_msg]"
    by simp
qed

lemma length_concat_clean:
  "length (concat (map (clean_buffer m) bs)) = length (concat bs)"
  by (induction bs) (simp_all add: clean_buffer_map)

lemma length_concat_files:
  "length (concat (concat (map F fs))) = sum_list (map (\<lambda>f. length (concat (F f))) fs)"
  by (induction fs) simp_all

lemma msgs_differ:
  "copying_msg f rd \<noteq> done_msg" "copying_msg f rd \<noteq> wrote_msg n" "wrote_msg n \<noteq> done_msg"
  by (simp_all add: copying_msg_def done_msg_def wrote_msg_def)

lemma read_nat_snoc: "read_nat (s @ [c]) = 10 * read_nat s + (of_char c - 48)"
  by (simp add: read_nat_def)

lemma digit_value: "d < 10 \<Longrightarrow> of_char (char_of (48 + d)) - 48 = (d::nat)"
  by (simp add: of_char_of)

lemma read_show_nat: "read_nat (show_nat n) = n"
proof (induction n rule: show_nat.induct)
  case (1 n)
  show ?case
  proof (cases "n < 10")
    case True
    then show ?thesis
      using digit_value [of n] by (simp add: show_nat.simps [of n] read_nat_def)
  next
    case False
    have "read_nat (show_nat n) = 10 * read_nat (show_nat (n div 10)) + (n mod 10)"
      using False digit_value [of "n mod 10"]
      by (simp add: show_nat.simps [of n] read_nat_snoc)
    with 1 False show ?thesis by simp
  qed
qed

lemma copy_returns:
  "\<forall>w buf. write_buffer env w buf = None \<Longrightarrow>
   copy env m (map Inr bs) w = Inr (w @ map (clean_buffer m) bs)"
  by (induction bs arbitrary: w) simp_all

lemma copy_files_returns:
  assumes w: "\<forall>w buf. write_buffer env w buf = None"
    and rds: "\<forall>f \<in> set fs. \<exists>rd bs. open_reader env f (m_osm_entity_bits st) = Inr rd \<and>
      r_reads rd = map Inr bs \<and> r_close rd = None"
  shows "\<exists>x. copy_files env st fs vo w0 = Inr x"
  using rds
proof (induction fs arbitrary: vo w0)
  case Nil
  show ?case by simp
next
  case (Cons f fs)
  from Cons.prems obtain rd bs where
    rd: "open_reader env f (m_osm_entity_bits st) = Inr rd"
    and bs: "r_reads rd = map Inr bs" and cl: "r_close rd = None"
    by auto
  from Cons.prems have rest: "\<forall>f \<in> set fs. \<exists>rd bs.
      open_reader env f (m_osm_entity_bits st) = Inr rd \<and> r_reads rd = map Inr bs \<and> r_close rd = None"
    by simp
  show ?case
    using Cons.IH [OF rest] by (simp add: rd bs cl copy_returns [OF w])
qed

lemma run_returns:
  assumes "no_exceptions env st"
  shows "\<exists>r. run env st = Inr r"
proof -
  let ?fs = "m_input_files st"
  from assms have w: "\<forall>w buf. write_buffer env w buf = None"
    and wo: "\<forall>hdr. open_writer env (m_output_file st) hdr (m_output_overwrite st) (m_fsync st) = None"
    and wc: "\<forall>w. \<exists>n. close_writer env w = Inr n"
    and rds: "\<forall>f \<in> set ?fs.
        \<exists>rd bs. open_reader env f (m_osm_entity_bits st) = Inr rd \<and>
          r_reads rd = map Inr bs \<and> r_close rd = None \<and>
          (length ?fs = 1 \<longrightarrow> (\<exists>hdr. r_header rd = Inr hdr))"
    by (simp_all add: no_exceptions_def)
  show ?thesis
  proof (cases "length ?fs = 1")
    case True
    then obtain f where fs: "?fs = [f]"
      by (cases ?fs) simp_all
    with rds True obtain rd bs hdr where
      rd: "open_reader env f (m_osm_entity_bits st) = Inr rd"
      and bs: "r_reads rd = map Inr bs" and cl: "r_close rd = None"
      and h: "r_header rd = Inr hdr"
      by auto
    from wc obtain n where n: "close_writer env (map (clean_buffer (m_clean_attrs st)) bs) = Inr n"
      by blast
    have "run_single env st f =
        Inr ([copying_msg f rd], map (clean_buffer (m_clean_attrs st)) bs, n)"
      using wo by (simp add: run_single_def rd bs cl h copy_returns [OF w] n)
    then show ?thesis
      by (simp add: run_def fs)
  next
    case False
    from rds have "\<forall>f \<in> set ?fs. \<exists>rd bs. open_reader env f (m_osm_entity_bits st) = Inr rd \<and>
      r_reads rd = map Inr bs \<and> r_close rd = None"
      by blast
    from copy_files_returns [OF w this] obtain ls wr where
      c: "copy_files env st ?fs [] [] = Inr (ls, wr)"
      by fastforce
    from wc obtain n where n: "close_writer env wr = Inr n" by blast
    have "run_multi env st = Inr (ls, wr, n)"
      using wo by (simp add: run_multi_def c n)
    with False show ?thesis
      by (simp add: run_def)
  qed
qed

lemma copy_files_opens_Inr:
  "copy_files env st fs vo w = Inr x \<Longrightarrow> copy_files_opens env st fs w = map Open_reader fs"
proof (induction fs arbitrary: vo w)
  case Nil
  show ?case by simp
next
  case (Cons f fs)
  from Cons.prems obtain rd w1 where
    rd: "open_reader env f (m_osm_entity_bits st) = Inr rd"
    and c: "copy env (m_clean_attrs st) (r_reads rd) w = Inr w1"
    and cl: "r_close rd = None"
    and rest: "copy_files env st fs (vo @ [copying_msg f rd]) w1 = Inr x"
    by (auto split: sum.splits option.splits)
  from Cons.IH [OF rest] show ?case
    by (simp add: rd c cl)
qed

lemma run_opens_Inr:
  assumes "run env st = Inr r"
  shows "run_opens env st =
    (if length (m_input_files st) = 1
     then [Open_reader (m_input_files st ! 0), Open_writer (m_output_file st)]
     else Open_writer (m_output_file st) # map Open_reader (m_input_files st))"
proof (cases "length (m_input_files st) = 1")
  case True
  with assms obtain x where "run_single env st (m_input_files st ! 0) = Inr x"
    by (auto simp: run_def split: sum.splits)
  then show ?thesis
    using True by (auto simp: run_single_def run_opens_def split: sum.splits option.splits)
next
  case False
  with assms obtain x where "run_multi env st = Inr x"
    by (auto simp: run_def split: sum.splits)
  then obtain y where "open_writer env (m_output_file st) (setup_header env [])
      (m_output_overwrite st) (m_fsync st) = None"
    and "copy_files env st (m_input_files st) [] [] = Inr y"
    by (auto simp: run_multi_def split: sum.splits option.splits)
  then show ?thesis
    using False copy_files_opens_Inr [of env st "m_input_files st" "[]" "[]" y]
    by (simp add: run_opens_def)
qed

subsection \<open>Runs on the concrete inputs\<close>

lemma show_nat_examples: "show_nat 120 = ''120''" "show_nat 200 = ''200''"
  by code_simp+

lemma example_run_two_files:
  "run example_env (example_command [example_file ''a.osm'', example_file ''b.osm''] 0) =
     Inr \<lparr>ret = True,
          vout = [copying_msg (example_file ''a.osm'') (example_reader [[Object example_node]]),
                  copying_msg (example_file ''b.osm'')
                    (example_reader [[ChangesetItem example_changeset], []]),
                  wrote_msg 200, done_msg],
          sink = [[Object example_node], [ChangesetItem example_changeset], []],
          written = 200\<rparr>"
  by (simp add: run_def run_multi_def example_env_def example_command_def example_file_def
      example_reader_def clean_buffer_def)

lemma example_run_no_files:
  "run example_env (example_command [] 0) =
     Inr \<lparr>ret = True, vout = [done_msg], sink = [], written = 0\<rparr>"
  by (simp add: run_def run_multi_def example_env_def example_command_def)

lemma example_run_one_file_cleaned:
  "run example_env (example_command [example_file ''a.osm''] 24) =
     Inr \<lparr>ret = True,
          vout = [copying_msg (example_file ''a.osm'') (example_reader [[Object example_node]]),
                  wrote_msg 100, done_msg],
          sink = [[Object (example_node\<lparr>uid := 0, user := []\<rparr>)]],
          written = 100\<rparr>"
  by (simp add: run_def run_single_def example_env_def example_command_def example_file_def
      example_reader_def clean_buffer_def clean_object_fields clean_version_def
      clean_changeset_def clean_timestamp_def clean_uid_def clean_user_def example_node_def)

lemma example_run_missing_file:
  "run example_env (example_command [example_file ''a.osm'', example_file ''missing.osm''] 0) =
     Inl (io_error ''cannot open file'')"
  by (simp add: run_def run_multi_def example_env_def example_command_def example_file_def
      example_reader_def clean_buffer_def)

lemma example_file_buffers:
  "file_buffers example_env bits (example_file ''a.osm'') = [[Object example_node]]"
  "file_buffers example_env bits (example_file ''b.osm'') = [[ChangesetItem example_changeset], []]"
  by (simp_all add: file_buffers_def file_reads_def example_env_def example_file_def
      example_reader_def)

lemma example_no_exceptions:
  "no_exceptions example_env (example_command [] m)"
  "no_exceptions example_env (example_command [example_file ''a.osm''] m)"
  "no_exceptions example_env (example_command [example_file ''a.osm'', example_file ''b.osm''] m)"
  by (simp_all add: no_exceptions_def example_env_def example_command_def example_file_def
      example_reader_def Cons_eq_map_conv)

lemma example_lines:
  "copying_msg (example_file ''a.osm'') (example_reader bs) =
     ''Copying input file '' @ [CHR 0x27] @ ''a.osm'' @ [CHR 0x27] @ '' (120 bytes)'' @ [CHR 0x0A]"
  "copying_msg (example_file ''b.osm'') (example_reader bs) =
     ''Copying input file '' @ [CHR 0x27] @ ''b.osm'' @ [CHR 0x27] @ '' (120 bytes)'' @ [CHR 0x0A]"
  "wrote_msg 100 = ''Wrote 100 bytes.'' @ [CHR 0x0A]"
  "wrote_msg 200 = ''Wrote 200 bytes.'' @ [CHR 0x0A]"
  "done_msg = ''Done.'' @ [CHR 0x0A]"
proof -
  have "show_nat 100 = ''100''" by code_simp
  then show "wrote_msg 100 = ''Wrote 100 bytes.'' @ [CHR 0x0A]"
    by (simp add: wrote_msg_def newline_def)
qed (simp_all add: copying_msg_def wrote_msg_def done_msg_def newline_def example_file_def
      example_reader_def show_nat_examples)

lemma example_run_opens:
  "run_opens example_env (example_command [example_file ''a.osm''] m) =
     [Open_reader (example_file ''a.osm''), Open_writer (example_file ''out.osm'')]"
  by (simp add: run_opens_def example_env_def example_command_def example_file_def
      example_reader_def)

subsection \<open>What a run that returns has done\<close>

text \<open>
  Claim C7. A run that returns has read every input file to its end without an
  exception, and the writer has received the buffers of the files in the order of
  \<^verbatim>\<open>m_input_files\<close>, those of one file in the order its reader gave them, each cleaned
  with \<^verbatim>\<open>m_clean_attrs\<close>; with no clean flag they are exactly the buffers read. The number
  of entities written is the sum of the numbers of entities of the input files. And a
  run does return, with the writer having received these buffers, whenever no reader and
  no call of the writer throws, with one input file as with none or several.
\<close>

theorem run_preserves_order:
  "(run env st = Inr r \<longrightarrow>
      (\<forall>f \<in> set (m_input_files st).
         file_reads env (m_osm_entity_bits st) f =
           map Inr (file_buffers env (m_osm_entity_bits st) f)) \<and>
      sink r = map (clean_buffer (m_clean_attrs st))
        (concat (map (file_buffers env (m_osm_entity_bits st)) (m_input_files st))) \<and>
      (m_clean_attrs st = 0 \<longrightarrow>
         sink r = concat (map (file_buffers env (m_osm_entity_bits st)) (m_input_files st))) \<and>
      length (concat (sink r)) =
        sum_list (map (\<lambda>f. length (concat (file_buffers env (m_osm_entity_bits st) f)))
          (m_input_files st))) \<and>
   (no_exceptions env st \<longrightarrow>
      (\<exists>r'. run env st = Inr r' \<and>
         sink r' = map (clean_buffer (m_clean_attrs st))
           (concat (map (file_buffers env (m_osm_entity_bits st)) (m_input_files st)))))"
proof -
  have ret: "(\<forall>f \<in> set (m_input_files st).
         file_reads env (m_osm_entity_bits st) f =
           map Inr (file_buffers env (m_osm_entity_bits st) f)) \<and>
      sink r = map (clean_buffer (m_clean_attrs st))
        (concat (map (file_buffers env (m_osm_entity_bits st)) (m_input_files st))) \<and>
      (m_clean_attrs st = 0 \<longrightarrow>
         sink r = concat (map (file_buffers env (m_osm_entity_bits st)) (m_input_files st))) \<and>
      length (concat (sink r)) =
        sum_list (map (\<lambda>f. length (concat (file_buffers env (m_osm_entity_bits st) f)))
          (m_input_files st))"
    if run: "run env st = Inr r"
  proof -
    note s = run_Inr(2) [OF run]
    have "length (concat (sink r)) =
        sum_list (map (\<lambda>f. length (concat (file_buffers env (m_osm_entity_bits st) f)))
          (m_input_files st))"
      unfolding s by (simp only: length_concat_clean length_concat_files)
    moreover have "sink r = concat (map (file_buffers env (m_osm_entity_bits st)) (m_input_files st))"
      if "m_clean_attrs st = 0"
      unfolding s that by (simp add: clean_buffer_zero)
    ultimately show ?thesis
      using s run_Inr(4) [OF run] by blast
  qed
  have prog: "\<exists>r'. run env st = Inr r' \<and>
         sink r' = map (clean_buffer (m_clean_attrs st))
           (concat (map (file_buffers env (m_osm_entity_bits st)) (m_input_files st)))"
    if "no_exceptions env st"
  proof -
    from run_returns [OF that] obtain r' where r': "run env st = Inr r'" by blast
    with run_Inr(2) [OF r'] show ?thesis by blast
  qed
  from ret prog show ?thesis by blast
qed

theorem run_preserves_order_witness:
  "run example_env (example_command [example_file ''a.osm''] 24) =
     Inr \<lparr>ret = True,
          vout = [''Copying input file '' @ [CHR 0x27] @ ''a.osm'' @ [CHR 0x27] @
                    '' (120 bytes)'' @ [CHR 0x0A],
                  ''Wrote 100 bytes.'' @ [CHR 0x0A], ''Done.'' @ [CHR 0x0A]],
          sink = [[Object (example_node\<lparr>uid := 0, user := []\<rparr>)]],
          written = 100\<rparr> \<and>
   [[Object (example_node\<lparr>uid := 0, user := []\<rparr>)]] =
     map (clean_buffer 24) (file_buffers example_env 0x0f (example_file ''a.osm'')) \<and>
   run example_env (example_command [example_file ''a.osm'', example_file ''b.osm''] 0) =
     Inr \<lparr>ret = True,
          vout = [''Copying input file '' @ [CHR 0x27] @ ''a.osm'' @ [CHR 0x27] @
                    '' (120 bytes)'' @ [CHR 0x0A],
                  ''Copying input file '' @ [CHR 0x27] @ ''b.osm'' @ [CHR 0x27] @
                    '' (120 bytes)'' @ [CHR 0x0A],
                  ''Wrote 200 bytes.'' @ [CHR 0x0A], ''Done.'' @ [CHR 0x0A]],
          sink = [[Object example_node], [ChangesetItem example_changeset], []],
          written = 200\<rparr> \<and>
   [[Object example_node], [ChangesetItem example_changeset], []] =
     concat (map (file_buffers example_env 0x0f) [example_file ''a.osm'', example_file ''b.osm'']) \<and>
   length (concat [[Object example_node], [ChangesetItem example_changeset], []]) =
     length (concat (file_buffers example_env 0x0f (example_file ''a.osm''))) +
     length (concat (file_buffers example_env 0x0f (example_file ''b.osm'')))"
proof -
  let ?one = "example_command [example_file ''a.osm''] 24"
  let ?two = "example_command [example_file ''a.osm'', example_file ''b.osm''] 0"
  from run_preserves_order [of example_env ?one] example_no_exceptions(2) [of 24]
  obtain r1 where r1: "run example_env ?one = Inr r1"
    and s1: "sink r1 = map (clean_buffer (m_clean_attrs ?one))
        (concat (map (file_buffers example_env (m_osm_entity_bits ?one)) (m_input_files ?one)))"
    by blast
  from run_preserves_order [of example_env ?two] example_no_exceptions(3) [of 0]
  obtain r2 where r2: "run example_env ?two = Inr r2"
    and s2: "sink r2 = map (clean_buffer (m_clean_attrs ?two))
        (concat (map (file_buffers example_env (m_osm_entity_bits ?two)) (m_input_files ?two)))"
    by blast
  from r1 have e1: "r1 = \<lparr>ret = True,
          vout = [copying_msg (example_file ''a.osm'') (example_reader [[Object example_node]]),
                  wrote_msg 100, done_msg],
          sink = [[Object (example_node\<lparr>uid := 0, user := []\<rparr>)]],
          written = 100\<rparr>"
    by (simp add: example_run_one_file_cleaned)
  from r2 have e2: "r2 = \<lparr>ret = True,
          vout = [copying_msg (example_file ''a.osm'') (example_reader [[Object example_node]]),
                  copying_msg (example_file ''b.osm'')
                    (example_reader [[ChangesetItem example_changeset], []]),
                  wrote_msg 200, done_msg],
          sink = [[Object example_node], [ChangesetItem example_changeset], []],
          written = 200\<rparr>"
    by (simp add: example_run_two_files)
  have c1: "run example_env ?one =
     Inr \<lparr>ret = True,
          vout = [''Copying input file '' @ [CHR 0x27] @ ''a.osm'' @ [CHR 0x27] @
                    '' (120 bytes)'' @ [CHR 0x0A],
                  ''Wrote 100 bytes.'' @ [CHR 0x0A], ''Done.'' @ [CHR 0x0A]],
          sink = [[Object (example_node\<lparr>uid := 0, user := []\<rparr>)]],
          written = 100\<rparr>"
    unfolding r1 e1 by (simp add: example_lines)
  have c2: "[[Object (example_node\<lparr>uid := 0, user := []\<rparr>)]] =
     map (clean_buffer 24) (file_buffers example_env 0x0f (example_file ''a.osm''))"
    using s1 unfolding e1 by (simp add: example_command_def)
  have c3: "run example_env ?two =
     Inr \<lparr>ret = True,
          vout = [''Copying input file '' @ [CHR 0x27] @ ''a.osm'' @ [CHR 0x27] @
                    '' (120 bytes)'' @ [CHR 0x0A],
                  ''Copying input file '' @ [CHR 0x27] @ ''b.osm'' @ [CHR 0x27] @
                    '' (120 bytes)'' @ [CHR 0x0A],
                  ''Wrote 200 bytes.'' @ [CHR 0x0A], ''Done.'' @ [CHR 0x0A]],
          sink = [[Object example_node], [ChangesetItem example_changeset], []],
          written = 200\<rparr>"
    unfolding r2 e2 by (simp add: example_lines)
  have c4: "[[Object example_node], [ChangesetItem example_changeset], []] =
     concat (map (file_buffers example_env 0x0f) [example_file ''a.osm'', example_file ''b.osm''])"
    using s2 unfolding e2 by (simp add: example_command_def clean_buffer_zero)
  have c5: "length (concat [[Object example_node], [ChangesetItem example_changeset], []]) =
     length (concat (file_buffers example_env 0x0f (example_file ''a.osm''))) +
     length (concat (file_buffers example_env 0x0f (example_file ''b.osm'')))"
    by (simp add: example_file_buffers)
  show ?thesis
    by (intro conjI) (rule c1, rule c2, rule c3, rule c4, rule c5)
qed

text \<open>
  Claim C8. In a run that returns, the file size is what \<^verbatim>\<open>writer.close()\<close> returned
  after all inputs; the lines streamed to \<^verbatim>\<open>m_vout\<close> are one line for each input file,
  then the line \<^verbatim>\<open>Wrote N bytes.\<close> with the size in decimal when and only when the size
  is greater than 0, then what \<^verbatim>\<open>show_memory_used\<close> writes, then the line \<^verbatim>\<open>Done.\<close> as
  the last one. The run itself streams \<^verbatim>\<open>Done.\<close> once: it is in the output exactly once
  unless \<^verbatim>\<open>show_memory_used\<close> writes the same line. And a run does return, with
  \<^verbatim>\<open>Done.\<close> as its last line, whenever no reader and no call of the writer throws.
\<close>

theorem run_reports_size_then_done:
  "(run env st = Inr r \<longrightarrow>
      close_writer env (sink r) = Inr (written r) \<and>
      (\<exists>copying. length copying = length (m_input_files st) \<and>
         vout r = copying @
           (if 0 < written r
            then [''Wrote '' @ show_nat (written r) @ '' bytes.'' @ [CHR 0x0A]] else []) @
           show_memory_used env @ [''Done.'' @ [CHR 0x0A]]) \<and>
      read_nat (show_nat (written r)) = written r \<and>
      last (vout r) = ''Done.'' @ [CHR 0x0A] \<and>
      (''Done.'' @ [CHR 0x0A] \<notin> set (show_memory_used env) \<longrightarrow>
         count_list (vout r) (''Done.'' @ [CHR 0x0A]) = 1) \<and>
      (0 < written r \<longrightarrow>
         ''Wrote '' @ show_nat (written r) @ '' bytes.'' @ [CHR 0x0A] \<in> set (vout r)) \<and>
      ((\<forall>n. ''Wrote '' @ show_nat n @ '' bytes.'' @ [CHR 0x0A] \<notin> set (show_memory_used env)) \<longrightarrow>
         ((\<exists>n. ''Wrote '' @ show_nat n @ '' bytes.'' @ [CHR 0x0A] \<in> set (vout r)) \<longleftrightarrow>
            0 < written r))) \<and>
   (no_exceptions env st \<longrightarrow>
      (\<exists>r'. run env st = Inr r' \<and> last (vout r') = ''Done.'' @ [CHR 0x0A] \<and>
         close_writer env (sink r') = Inr (written r')))"
proof -
  have d: "''Done.'' @ [CHR 0x0A] = done_msg"
    by (simp add: done_msg_def newline_def)
  have wm: "''Wrote '' @ show_nat n @ '' bytes.'' @ [CHR 0x0A] = wrote_msg n" for n
    by (simp add: wrote_msg_def newline_def)
  have ret: "close_writer env (sink r) = Inr (written r) \<and>
      (\<exists>copying. length copying = length (m_input_files st) \<and>
         vout r = copying @ (if 0 < written r then [wrote_msg (written r)] else []) @
           show_memory_used env @ [done_msg]) \<and>
      read_nat (show_nat (written r)) = written r \<and>
      last (vout r) = done_msg \<and>
      (done_msg \<notin> set (show_memory_used env) \<longrightarrow> count_list (vout r) done_msg = 1) \<and>
      (0 < written r \<longrightarrow> wrote_msg (written r) \<in> set (vout r)) \<and>
      ((\<forall>n. wrote_msg n \<notin> set (show_memory_used env)) \<longrightarrow>
         ((\<exists>n. wrote_msg n \<in> set (vout r)) \<longleftrightarrow> 0 < written r))"
    if run: "run env st = Inr r"
  proof -
    let ?fs = "m_input_files st"
    from run_Inr(5) [OF run] obtain rds where
      rds: "map (\<lambda>f. open_reader env f (m_osm_entity_bits st)) ?fs = map Inr rds"
      and v: "vout r = map2 copying_msg ?fs rds @
              (if 0 < written r then [wrote_msg (written r)] else []) @
              show_memory_used env @ [done_msg]"
      by blast
    let ?copying = "map2 copying_msg ?fs rds"
    from rds have "length ?fs = length rds"
      by (metis length_map)
    then have len: "length ?copying = length ?fs" by simp
    have cop: "\<exists>f rd. l = copying_msg f rd" if "l \<in> set ?copying" for l
      using that by (auto simp: in_set_zip)
    have no_done: "done_msg \<notin> set ?copying"
      using cop msgs_differ(1) by metis
    have no_wrote: "wrote_msg n \<notin> set ?copying" for n
      using cop msgs_differ(2) by metis
    have c1: "count_list (vout r) done_msg = 1" if "done_msg \<notin> set (show_memory_used env)"
      unfolding v using that no_done msgs_differ(3) msgs_differ(3) [symmetric]
      by (simp add: count_list_0_iff)
    have c2: "wrote_msg (written r) \<in> set (vout r)" if "0 < written r"
      unfolding v using that by simp
    have c3: "(\<exists>n. wrote_msg n \<in> set (vout r)) \<longleftrightarrow> 0 < written r"
      if "\<forall>n. wrote_msg n \<notin> set (show_memory_used env)"
    proof
      assume "\<exists>n. wrote_msg n \<in> set (vout r)"
      then obtain n where "wrote_msg n \<in> set (vout r)" by blast
      then show "0 < written r"
        unfolding v using that no_wrote [of n] msgs_differ(3) [of n]
        by (auto split: if_splits)
    next
      assume "0 < written r"
      then show "\<exists>n. wrote_msg n \<in> set (vout r)"
        using c2 by blast
    qed
    have "last (vout r) = done_msg"
      unfolding v by simp
    with c1 c2 c3 len v run_Inr(3) [OF run] read_show_nat [of "written r"]
    show ?thesis by blast
  qed
  have prog: "\<exists>r'. run env st = Inr r' \<and> last (vout r') = done_msg \<and>
         close_writer env (sink r') = Inr (written r')"
    if "no_exceptions env st"
  proof -
    from run_returns [OF that] obtain r' where r': "run env st = Inr r'" by blast
    from run_Inr(5) [OF r'] have "last (vout r') = done_msg" by auto
    with r' run_Inr(3) [OF r'] show ?thesis by blast
  qed
  from ret prog show ?thesis
    unfolding d wm by blast
qed

theorem run_reports_size_then_done_witness:
  "run example_env (example_command [example_file ''a.osm''] 24) =
     Inr \<lparr>ret = True,
          vout = [''Copying input file '' @ [CHR 0x27] @ ''a.osm'' @ [CHR 0x27] @
                    '' (120 bytes)'' @ [CHR 0x0A],
                  ''Wrote 100 bytes.'' @ [CHR 0x0A], ''Done.'' @ [CHR 0x0A]],
          sink = [[Object (example_node\<lparr>uid := 0, user := []\<rparr>)]],
          written = 100\<rparr> \<and>
   close_writer example_env [[Object (example_node\<lparr>uid := 0, user := []\<rparr>)]] = Inr 100 \<and>
   run example_env (example_command [example_file ''a.osm'', example_file ''b.osm''] 0) =
     Inr \<lparr>ret = True,
          vout = [''Copying input file '' @ [CHR 0x27] @ ''a.osm'' @ [CHR 0x27] @
                    '' (120 bytes)'' @ [CHR 0x0A],
                  ''Copying input file '' @ [CHR 0x27] @ ''b.osm'' @ [CHR 0x27] @
                    '' (120 bytes)'' @ [CHR 0x0A],
                  ''Wrote 200 bytes.'' @ [CHR 0x0A], ''Done.'' @ [CHR 0x0A]],
          sink = [[Object example_node], [ChangesetItem example_changeset], []],
          written = 200\<rparr> \<and>
   run example_env (example_command [] 0) =
     Inr \<lparr>ret = True, vout = [''Done.'' @ [CHR 0x0A]], sink = [], written = 0\<rparr> \<and>
   close_writer example_env [] = Inr 0"
proof -
  let ?one = "example_command [example_file ''a.osm''] 24"
  let ?none = "example_command [] 0"
  from run_reports_size_then_done [of example_env ?one] example_no_exceptions(2) [of 24]
  obtain r1 where r1: "run example_env ?one = Inr r1"
    and l1: "last (vout r1) = ''Done.'' @ [CHR 0x0A]"
    and w1: "close_writer example_env (sink r1) = Inr (written r1)"
    by blast
  from run_reports_size_then_done [of example_env ?none] example_no_exceptions(1) [of 0]
  obtain r0 where r0: "run example_env ?none = Inr r0"
    and w0: "close_writer example_env (sink r0) = Inr (written r0)"
    by blast
  from r1 have e1: "r1 = \<lparr>ret = True,
          vout = [copying_msg (example_file ''a.osm'') (example_reader [[Object example_node]]),
                  wrote_msg 100, done_msg],
          sink = [[Object (example_node\<lparr>uid := 0, user := []\<rparr>)]],
          written = 100\<rparr>"
    by (simp add: example_run_one_file_cleaned)
  from r0 have e0: "r0 = \<lparr>ret = True, vout = [done_msg], sink = [], written = 0\<rparr>"
    by (simp add: example_run_no_files)
  have c1: "run example_env ?one =
     Inr \<lparr>ret = True,
          vout = [''Copying input file '' @ [CHR 0x27] @ ''a.osm'' @ [CHR 0x27] @
                    '' (120 bytes)'' @ [CHR 0x0A],
                  ''Wrote 100 bytes.'' @ [CHR 0x0A], ''Done.'' @ [CHR 0x0A]],
          sink = [[Object (example_node\<lparr>uid := 0, user := []\<rparr>)]],
          written = 100\<rparr>"
    unfolding r1 e1 by (simp add: example_lines)
  have c2: "close_writer example_env [[Object (example_node\<lparr>uid := 0, user := []\<rparr>)]] = Inr 100"
    using w1 unfolding e1 by simp
  have c3: "run example_env (example_command [example_file ''a.osm'', example_file ''b.osm''] 0) =
     Inr \<lparr>ret = True,
          vout = [''Copying input file '' @ [CHR 0x27] @ ''a.osm'' @ [CHR 0x27] @
                    '' (120 bytes)'' @ [CHR 0x0A],
                  ''Copying input file '' @ [CHR 0x27] @ ''b.osm'' @ [CHR 0x27] @
                    '' (120 bytes)'' @ [CHR 0x0A],
                  ''Wrote 200 bytes.'' @ [CHR 0x0A], ''Done.'' @ [CHR 0x0A]],
          sink = [[Object example_node], [ChangesetItem example_changeset], []],
          written = 200\<rparr>"
    by (simp add: example_run_two_files example_lines)
  have c4: "run example_env ?none =
     Inr \<lparr>ret = True, vout = [''Done.'' @ [CHR 0x0A]], sink = [], written = 0\<rparr>"
    unfolding r0 e0 by (simp add: example_lines)
  have c5: "close_writer example_env [] = Inr 0"
    using w0 unfolding e0 by simp
  show ?thesis
    by (intro conjI) (rule c1, rule c2, rule c3, rule c4, rule c5)
qed

text \<open>
  Claim C9. A run that returns, returns true: the only other way out of \<^verbatim>\<open>run\<close> is an
  exception of a reader or the writer.
\<close>

theorem run_returns_true:
  "run env st = Inr r \<longrightarrow> ret r = True"
  using run_Inr(1) [of env st r] by blast

theorem run_returns_true_witness:
  "run example_env (example_command [example_file ''a.osm''] 24) =
     Inr \<lparr>ret = True,
          vout = [copying_msg (example_file ''a.osm'') (example_reader [[Object example_node]]),
                  wrote_msg 100, done_msg],
          sink = [[Object (example_node\<lparr>uid := 0, user := []\<rparr>)]],
          written = 100\<rparr> \<and>
   run example_env (example_command [example_file ''a.osm'', example_file ''missing.osm''] 0) =
     Inl (io_error ''cannot open file'')"
  using run_returns_true [of example_env "example_command [example_file ''a.osm''] 24"]
    example_run_one_file_cleaned example_run_missing_file
  by simp

subsection \<open>An unknown clean value\<close>

text \<open>
  Claim C6. On a command line that parses, a clean value outside the five names makes
  \<^verbatim>\<open>setup\<close> end in an exception whatever the inherited setup steps do; then, in every
  world, \<^verbatim>\<open>run\<close> is not started and no reader and no writer is constructed. When the
  inherited steps return, the exception is the \<^verbatim>\<open>argument_error\<close> that names the first
  such value. With all values recognized (or none given) and the inherited steps
  returning, \<^verbatim>\<open>setup\<close> returns true with the flags of the values ORed into
  \<^verbatim>\<open>m_clean_attrs\<close>, and \<^verbatim>\<open>run\<close> is started on that state.
\<close>

theorem setup_rejects_unknown_clean_value:
  assumes p: "parse arguments = Inr vm"
  shows "(\<not> set (clean_values vm) \<subseteq> set clean_names \<longrightarrow>
            (\<exists>e. cat_setup parse setup_base arguments st = Inl e) \<and>
            (\<forall>env. run_outcome (cat_command parse setup_base env arguments st) = None \<and>
                   opened (cat_command parse setup_base env arguments st) = [] \<and>
                   (\<exists>e. setup_outcome (cat_command parse setup_base env arguments st) = Inl e)) \<and>
            (\<forall>st1. setup_base vm st = Inr st1 \<longrightarrow>
               (\<exists>c. find (\<lambda>c. c \<notin> set clean_names) (clean_values vm) = Some c \<and>
                    c \<in> set (clean_values vm) \<and> c \<notin> set clean_names \<and>
                    cat_setup parse setup_base arguments st = Inl (unknown_attribute c) \<and>
                    (\<forall>env. cat_command parse setup_base env arguments st =
                       \<lparr>setup_outcome = Inl (unknown_attribute c), run_outcome = None,
                        opened = []\<rparr>)))) \<and>
         (set (clean_values vm) \<subseteq> set clean_names \<longrightarrow>
            (\<forall>st1. setup_base vm st = Inr st1 \<longrightarrow>
               cat_setup parse setup_base arguments st =
                 Inr (True, st1\<lparr>m_clean_attrs :=
                   m_clean_attrs st1 OR mask_of (set (clean_values vm))\<rparr>) \<and>
               (\<forall>env. cat_command parse setup_base env arguments st =
                  \<lparr>setup_outcome = Inr True,
                   run_outcome = Some (run env (st1\<lparr>m_clean_attrs :=
                     m_clean_attrs st1 OR mask_of (set (clean_values vm))\<rparr>)),
                   opened = run_opens env (st1\<lparr>m_clean_attrs :=
                     m_clean_attrs st1 OR mask_of (set (clean_values vm))\<rparr>)\<rparr>)))"
proof -
  let ?cs = "clean_values vm"
  let ?P = "\<lambda>c. c \<notin> set clean_names"
  note steps = cat_setup_steps [where parse = parse and setup_base = setup_base, OF p]
  have bad: "\<exists>c. find ?P ?cs = Some c \<and> c \<in> set ?cs \<and> c \<notin> set clean_names \<and>
      cat_setup parse setup_base arguments st = Inl (unknown_attribute c) \<and>
      (\<forall>env. cat_command parse setup_base env arguments st =
         \<lparr>setup_outcome = Inl (unknown_attribute c), run_outcome = None, opened = []\<rparr>)"
    if "\<not> set ?cs \<subseteq> set clean_names" and b: "setup_base vm st = Inr st1" for st1
  proof -
    from that have "find ?P ?cs \<noteq> None"
      by (simp add: find_unknown_None)
    then obtain c where c: "find ?P ?cs = Some c" by blast
    then have "c \<in> set ?cs" "c \<notin> set clean_names"
      by (auto simp: find_Some_iff)
    moreover from c have s: "cat_setup parse setup_base arguments st = Inl (unknown_attribute c)"
      by (simp add: steps [OF b] clean_loop_find)
    moreover from s have "\<forall>env. cat_command parse setup_base env arguments st =
         \<lparr>setup_outcome = Inl (unknown_attribute c), run_outcome = None, opened = []\<rparr>"
      by (simp add: cat_command_def)
    ultimately show ?thesis using c by blast
  qed
  have fails: "\<exists>e. cat_setup parse setup_base arguments st = Inl e"
    if n: "\<not> set ?cs \<subseteq> set clean_names"
  proof (cases "setup_base vm st")
    case (Inl e)
    with p show ?thesis by (simp add: cat_setup_def)
  next
    case (Inr st1)
    from bad [OF n Inr] show ?thesis by blast
  qed
  have not_run: "\<forall>env. run_outcome (cat_command parse setup_base env arguments st) = None \<and>
      opened (cat_command parse setup_base env arguments st) = [] \<and>
      (\<exists>e. setup_outcome (cat_command parse setup_base env arguments st) = Inl e)"
    if n: "\<not> set ?cs \<subseteq> set clean_names"
  proof -
    from fails [OF n] obtain e where "cat_setup parse setup_base arguments st = Inl e"
      by blast
    then show ?thesis by (simp add: cat_command_def)
  qed
  have good: "cat_setup parse setup_base arguments st =
      Inr (True, st1\<lparr>m_clean_attrs := m_clean_attrs st1 OR mask_of (set ?cs)\<rparr>) \<and>
      (\<forall>env. cat_command parse setup_base env arguments st =
         \<lparr>setup_outcome = Inr True,
          run_outcome = Some (run env (st1\<lparr>m_clean_attrs :=
            m_clean_attrs st1 OR mask_of (set ?cs)\<rparr>)),
          opened = run_opens env (st1\<lparr>m_clean_attrs :=
            m_clean_attrs st1 OR mask_of (set ?cs)\<rparr>)\<rparr>)"
    if "set ?cs \<subseteq> set clean_names" and b: "setup_base vm st = Inr st1" for st1
  proof -
    from that have "find ?P ?cs = None"
      by (simp add: find_unknown_None)
    then have "cat_setup parse setup_base arguments st =
      Inr (True, st1\<lparr>m_clean_attrs := m_clean_attrs st1 OR mask_of (set ?cs)\<rparr>)"
      by (simp add: steps [OF b] clean_loop_find)
    then show ?thesis by (simp add: cat_command_def)
  qed
  from bad fails not_run good show ?thesis by blast
qed

theorem setup_rejects_unknown_clean_value_witness:
  "cat_setup example_parse example_setup_base [''user'', ''foo'', ''bar'']
       (example_command [example_file ''a.osm''] 0) =
     Inl (argument_error
       (''Unknown attribute on -c/--clean option: '' @ [CHR 0x27] @ ''foo'' @ [CHR 0x27])) \<and>
   cat_command example_parse example_setup_base example_env [''user'', ''foo'', ''bar'']
       (example_command [example_file ''a.osm''] 0) =
     \<lparr>setup_outcome = Inl (argument_error
        (''Unknown attribute on -c/--clean option: '' @ [CHR 0x27] @ ''foo'' @ [CHR 0x27])),
      run_outcome = None, opened = []\<rparr> \<and>
   cat_setup example_parse example_setup_base [''user'', ''uid'']
       (example_command [example_file ''a.osm''] 0) =
     Inr (True, example_command [example_file ''a.osm''] 24) \<and>
   cat_command example_parse example_setup_base example_env [''user'', ''uid'']
       (example_command [example_file ''a.osm''] 0) =
     \<lparr>setup_outcome = Inr True,
      run_outcome = Some (Inr \<lparr>ret = True,
          vout = [''Copying input file '' @ [CHR 0x27] @ ''a.osm'' @ [CHR 0x27] @
                    '' (120 bytes)'' @ [CHR 0x0A],
                  ''Wrote 100 bytes.'' @ [CHR 0x0A], ''Done.'' @ [CHR 0x0A]],
          sink = [[Object (example_node\<lparr>uid := 0, user := []\<rparr>)]],
          written = 100\<rparr>),
      opened = [Open_reader (example_file ''a.osm''), Open_writer (example_file ''out.osm'')]\<rparr>"
proof -
  let ?st = "example_command [example_file ''a.osm''] 0"
  let ?bad = "[''user'', ''foo'', ''bar'']"
  let ?good = "[''user'', ''uid'']"
  have v: "clean_values [''clean'' \<mapsto> cs] = cs" for cs
    by (simp add: clean_values_def)
  have bad: "\<not> set ?bad \<subseteq> set clean_names"
    by (simp add: clean_names_def)
  have f: "find (\<lambda>c. c \<notin> set clean_names) ?bad = Some ''foo''"
    by (simp add: clean_names_def)
  have good: "set ?good \<subseteq> set clean_names"
    by (simp add: clean_names_def)
  have m: "(0 :: 8 word) OR mask_of (set ?good) = 24"
    by (simp add: mask_of_def clean_uid_def clean_user_def)
  have st24: "?st\<lparr>m_clean_attrs := m_clean_attrs ?st OR mask_of {''user'', ''uid''}\<rparr> =
      example_command [example_file ''a.osm''] 24"
    by (simp add: example_command_def mask_of_def clean_uid_def clean_user_def)
  have pb: "example_parse ?bad = Inr [''clean'' \<mapsto> ?bad]"
    and pg: "example_parse ?good = Inr [''clean'' \<mapsto> ?good]"
    by (simp_all add: example_parse_def)
  have sb: "example_setup_base vm ?st = Inr ?st" for vm
    by (simp add: example_setup_base_def)
  have u: "unknown_attribute ''foo'' = argument_error
       (''Unknown attribute on -c/--clean option: '' @ [CHR 0x27] @ ''foo'' @ [CHR 0x27])"
    by (simp add: unknown_attribute_def)
  from setup_rejects_unknown_clean_value [where parse = example_parse and arguments = ?bad
      and vm = "[''clean'' \<mapsto> ?bad]" and setup_base = example_setup_base and st = ?st, OF pb]
    bad f sb
  have 1: "cat_setup example_parse example_setup_base ?bad ?st = Inl (unknown_attribute ''foo'')"
    and 2: "cat_command example_parse example_setup_base example_env ?bad ?st =
      \<lparr>setup_outcome = Inl (unknown_attribute ''foo''), run_outcome = None, opened = []\<rparr>"
    by (simp_all add: v)
  from setup_rejects_unknown_clean_value [where parse = example_parse and arguments = ?good
      and vm = "[''clean'' \<mapsto> ?good]" and setup_base = example_setup_base and st = ?st, OF pg]
    good sb
  have 3: "cat_setup example_parse example_setup_base ?good ?st =
      Inr (True, example_command [example_file ''a.osm''] 24)"
    and 4: "cat_command example_parse example_setup_base example_env ?good ?st =
      \<lparr>setup_outcome = Inr True,
       run_outcome = Some (run example_env (example_command [example_file ''a.osm''] 24)),
       opened = run_opens example_env (example_command [example_file ''a.osm''] 24)\<rparr>"
    by (simp_all add: v st24)
  show ?thesis
    unfolding 1 2 3 4 u by (simp add: example_run_one_file_cleaned example_run_opens example_lines)
qed

end
